theory Spec2Isabelle
  imports Main "HOL-Library.Word" "HOL-Library.Signed_Division"
begin

section \<open>Runtime objects and the syntax tree\<close>

text \<open>
  The interpreter's objects (\<^verbatim>\<open>runtime.cpp\<close>) and executable nodes (\<^verbatim>\<open>statement.cpp\<close>)
  refer to each other: a class owns method bodies, a \<^verbatim>\<open>ClassDefinition\<close> node owns a handle
  to a class object. Numbers are C++ \<^verbatim>\<open>int\<close>, taken as 32-bit two's complement words.

  Class instances are the only mutable objects. Each lives at an address; a handle to an
  instance carries that address, and the instance's state (its class and its field table) is
  kept in a heap indexed by addresses. All other objects are immutable and are carried by
  value inside the handle.

  A \<^verbatim>\<open>NewInstance\<close> node has a data member \<^verbatim>\<open>cls_inst_\<close> of type
  \<^verbatim>\<open>runtime::ClassInstance\<close>, built by the node's constructor from the class it is given:
  the node is modelled with the address of that member.
\<close>

type_synonym addr = nat

datatype comparator =
  CmpEqual | CmpNotEqual | CmpLess | CmpGreater | CmpLessOrEqual | CmpGreaterOrEqual

datatype stmt =
    NumericConst "32 word"
  | StringConst string
  | BoolConst bool
  | NoneConst
  | VariableValue "string list"
  | Assignment string stmt
  | FieldAssignment "string list" string stmt
  | Print "stmt list"
  | MethodCall stmt string "stmt list"
  | NewInstance addr "stmt list"
  | Stringify stmt
  | Add stmt stmt
  | Sub stmt stmt
  | Mult stmt stmt
  | Div stmt stmt
  | Or stmt stmt
  | And stmt stmt
  | Not stmt
  | Compound "stmt list"
  | MethodBody stmt
  | Return stmt
  | ClassDefinition holder
  | IfElse stmt stmt "stmt option"
  | Comparison comparator stmt stmt
and class_method = Method (name: string) (formal_params: "string list") (body: stmt)
and cls = Class (cls_name: string) (cls_methods: "class_method list") (cls_parent: "cls option")
and object =
    Number "32 word"
  | String string
  | Bool bool
  | ClassObject cls
  | ClassInstance addr
and holder = Empty | Own object | Share object

text \<open>
  \<^verbatim>\<open>ObjectHolder\<close>: \<open>Empty\<close> is the null handle (\<^verbatim>\<open>ObjectHolder::None()\<close>),
  \<open>Own\<close> a handle made by \<^verbatim>\<open>ObjectHolder::Own\<close> (a new heap object, counted),
  \<open>Share\<close> one made by \<^verbatim>\<open>ObjectHolder::Share\<close> (a borrowed pointer whose deleter
  does nothing).
\<close>

fun Get :: "holder \<Rightarrow> object option" where
  "Get Empty = None"
| "Get (Own obj) = Some obj"
| "Get (Share obj) = Some obj"

definition present :: "holder \<Rightarrow> bool" where
  "present h = (Get h \<noteq> None)"

definition TryAs_Number :: "holder \<Rightarrow> 32 word option" where
  "TryAs_Number h = (case Get h of Some (Number v) \<Rightarrow> Some v | _ \<Rightarrow> None)"

definition TryAs_String :: "holder \<Rightarrow> string option" where
  "TryAs_String h = (case Get h of Some (String s) \<Rightarrow> Some s | _ \<Rightarrow> None)"

definition TryAs_Bool :: "holder \<Rightarrow> bool option" where
  "TryAs_Bool h = (case Get h of Some (Bool b) \<Rightarrow> Some b | _ \<Rightarrow> None)"

definition TryAs_Class :: "holder \<Rightarrow> cls option" where
  "TryAs_Class h = (case Get h of Some (ClassObject c) \<Rightarrow> Some c | _ \<Rightarrow> None)"

definition TryAs_ClassInstance :: "holder \<Rightarrow> addr option" where
  "TryAs_ClassInstance h = (case Get h of Some (ClassInstance a) \<Rightarrow> Some a | _ \<Rightarrow> None)"

text \<open>The test \<^verbatim>\<open>lhs_ptr && rhs_ptr\<close> on two cast results.\<close>

definition both :: "'a option \<Rightarrow> 'b option \<Rightarrow> ('a \<times> 'b) option" where
  "both x y = (case x of None \<Rightarrow> None | Some a \<Rightarrow> (case y of None \<Rightarrow> None | Some b \<Rightarrow> Some (a, b)))"

type_synonym Closure = "string \<rightharpoonup> holder"

record instance_state =
  inst_cls :: cls
  inst_fields :: Closure

text \<open>
  What execution reads and writes: the closure passed to \<^verbatim>\<open>Execute\<close>, the instances, and
  the text written so far to the output stream of the \<^verbatim>\<open>Context\<close>. The heap is total: a
  handle that outlives its instance is not represented.
\<close>

record world =
  closure :: Closure
  heap :: "addr \<Rightarrow> instance_state"
  out :: string

text \<open>
  What can leave a function other than its result: \<^verbatim>\<open>std::runtime_error\<close>, the
  \<^verbatim>\<open>ReturnObj\<close> exception of \<^verbatim>\<open>return\<close>, behaviour that C++ leaves undefined, and the end of
  the recursion budget of the model.
\<close>

datatype signal =
    RuntimeError string
  | ReturnObj holder
  | Undefined string
  | OutOfFuel

type_synonym 'a res = "(signal + 'a) \<times> world"

type_synonym executor = "stmt \<Rightarrow> world \<Rightarrow> holder res"

definition null_dereference :: signal where
  "null_dereference = Undefined ''null pointer dereference''"

subsection \<open>Classes and instances\<close>

fun GetMethod :: "cls \<Rightarrow> string \<Rightarrow> class_method option" where
  "GetMethod (Class nm ms p) n =
     (case find (\<lambda>m. n = name m) ms of
        Some m \<Rightarrow> Some m
      | None \<Rightarrow> (case p of Some c \<Rightarrow> GetMethod c n | None \<Rightarrow> None))"

definition HasMethod :: "cls \<Rightarrow> string \<Rightarrow> nat \<Rightarrow> bool" where
  "HasMethod c m argument_count =
     (case GetMethod c m of
        None \<Rightarrow> False
      | Some method_ptr \<Rightarrow> length (formal_params method_ptr) = argument_count)"

text \<open>The constructor \<^verbatim>\<open>ClassInstance(const Class&)\<close>, run at address \<open>this\<close>.\<close>

definition ClassInstance_new :: "cls \<Rightarrow> addr \<Rightarrow> instance_state" where
  "ClassInstance_new c this =
     \<lparr>inst_cls = c, inst_fields = [''self'' \<mapsto> Share (ClassInstance this)]\<rparr>"

text \<open>The loop of \<^verbatim>\<open>Call\<close> that binds formal parameters to actual arguments, in order.\<close>

fun bind_params :: "string list \<Rightarrow> holder list \<Rightarrow> Closure \<Rightarrow> Closure" where
  "bind_params (p # ps) (a # as) c = bind_params ps as (c(p \<mapsto> a))"
| "bind_params _ _ c = c"

definition Call :: "executor \<Rightarrow> addr \<Rightarrow> string \<Rightarrow> holder list \<Rightarrow> world \<Rightarrow> holder res" where
  \<open>Call ex this m actual_args w =
     (if \<not> HasMethod (inst_cls (heap w this)) m (length actual_args)
      then (Inl (RuntimeError (''No such method "'' @ m @ ''" or wrong count of arguments'')), w)
      else
        (case GetMethod (inst_cls (heap w this)) m of
           None \<Rightarrow> (Inl null_dereference, w)
         | Some method_ptr \<Rightarrow>
             (let arg_name_to_obj =
                    bind_params (formal_params method_ptr) actual_args
                      [''self'' \<mapsto> Share (ClassInstance this)];
                  (r, w') = ex (body method_ptr) (w\<lparr>closure := arg_name_to_obj\<rparr>)
              in (r, w'\<lparr>closure := closure w\<rparr>))))\<close>

subsection \<open>Truth and comparison\<close>

definition IsTrue :: "holder \<Rightarrow> bool" where
  "IsTrue h =
     (if \<not> present h then False
      else case TryAs_Number h of Some v \<Rightarrow> v \<noteq> 0
      | None \<Rightarrow> (case TryAs_String h of Some s \<Rightarrow> s \<noteq> []
      | None \<Rightarrow> (case TryAs_Bool h of Some b \<Rightarrow> b
      | None \<Rightarrow> False)))"

text \<open>\<^verbatim>\<open>std::string\<close>'s \<^verbatim>\<open><\<close>: lexicographic, bytes compared as unsigned.\<close>

fun string_less :: "string \<Rightarrow> string \<Rightarrow> bool" where
  "string_less [] [] = False"
| "string_less [] (y # ys) = True"
| "string_less (x # xs) [] = False"
| "string_less (x # xs) (y # ys) =
     (if (of_char x :: nat) < of_char y then True
      else if (of_char y :: nat) < of_char x then False
      else string_less xs ys)"

definition Equal :: "executor \<Rightarrow> holder \<Rightarrow> holder \<Rightarrow> world \<Rightarrow> bool res" where
  "Equal ex lhs rhs w =
     (if \<not> present lhs \<and> \<not> present rhs then (Inr True, w)
      else if \<not> present lhs \<or> \<not> present rhs
      then (Inl (RuntimeError ''Cannot compare objects for equality''), w)
      else case both (TryAs_Number lhs) (TryAs_Number rhs) of
        Some (l, r) \<Rightarrow> (Inr (l = r), w)
      | None \<Rightarrow> (case both (TryAs_String lhs) (TryAs_String rhs) of
        Some (l, r) \<Rightarrow> (Inr (l = r), w)
      | None \<Rightarrow> (case both (TryAs_Bool lhs) (TryAs_Bool rhs) of
        Some (l, r) \<Rightarrow> (Inr (l = r), w)
      | None \<Rightarrow> (case TryAs_ClassInstance lhs of
        Some this \<Rightarrow>
          if HasMethod (inst_cls (heap w this)) ''__eq__'' 1
          then (case Call ex this ''__eq__'' [rhs] w of
                  (Inl e, w') \<Rightarrow> (Inl e, w')
                | (Inr v, w') \<Rightarrow>
                    (case TryAs_Bool v of
                       None \<Rightarrow> (Inl null_dereference, w')
                     | Some b \<Rightarrow> (Inr b, w')))
          else (Inl (RuntimeError ''Cannot compare objects for equality''), w)
      | None \<Rightarrow> (Inl (RuntimeError ''Cannot compare objects for equality''), w)))))"

definition Less :: "executor \<Rightarrow> holder \<Rightarrow> holder \<Rightarrow> world \<Rightarrow> bool res" where
  "Less ex lhs rhs w =
     (if \<not> present lhs \<or> \<not> present rhs
      then (Inl (RuntimeError ''Cannot compare objects for less''), w)
      else case both (TryAs_Number lhs) (TryAs_Number rhs) of
        Some (l, r) \<Rightarrow> (Inr (l <s r), w)
      | None \<Rightarrow> (case both (TryAs_String lhs) (TryAs_String rhs) of
        Some (l, r) \<Rightarrow> (Inr (string_less l r), w)
      | None \<Rightarrow> (case both (TryAs_Bool lhs) (TryAs_Bool rhs) of
        Some (l, r) \<Rightarrow> (Inr (l < r), w)
      | None \<Rightarrow> (case TryAs_ClassInstance lhs of
        Some this \<Rightarrow>
          if HasMethod (inst_cls (heap w this)) ''__lt__'' 1
          then (case Call ex this ''__lt__'' [rhs] w of
                  (Inl e, w') \<Rightarrow> (Inl e, w')
                | (Inr v, w') \<Rightarrow>
                    (case TryAs_Bool v of
                       None \<Rightarrow> (Inl null_dereference, w')
                     | Some b \<Rightarrow> (Inr b, w')))
          else (Inl (RuntimeError ''Cannot compare objects for less''), w)
      | None \<Rightarrow> (Inl (RuntimeError ''Cannot compare objects for less''), w)))))"

definition NotEqual :: "executor \<Rightarrow> holder \<Rightarrow> holder \<Rightarrow> world \<Rightarrow> bool res" where
  "NotEqual ex lhs rhs w =
     (case Equal ex lhs rhs w of
        (Inl e, w') \<Rightarrow> (Inl e, w')
      | (Inr eq, w') \<Rightarrow> (Inr (\<not> eq), w'))"

text \<open>\<^verbatim>\<open>!Less(..) && !Equal(..)\<close>: \<^verbatim>\<open>Equal\<close> runs only when \<^verbatim>\<open>Less\<close> returned false.\<close>

definition Greater :: "executor \<Rightarrow> holder \<Rightarrow> holder \<Rightarrow> world \<Rightarrow> bool res" where
  "Greater ex lhs rhs w =
     (case Less ex lhs rhs w of
        (Inl e, w1) \<Rightarrow> (Inl e, w1)
      | (Inr lt, w1) \<Rightarrow>
          if lt then (Inr False, w1)
          else (case Equal ex lhs rhs w1 of
                  (Inl e, w2) \<Rightarrow> (Inl e, w2)
                | (Inr eq, w2) \<Rightarrow> (Inr (\<not> eq), w2)))"

definition LessOrEqual :: "executor \<Rightarrow> holder \<Rightarrow> holder \<Rightarrow> world \<Rightarrow> bool res" where
  "LessOrEqual ex lhs rhs w =
     (case Greater ex lhs rhs w of
        (Inl e, w') \<Rightarrow> (Inl e, w')
      | (Inr gt, w') \<Rightarrow> (Inr (\<not> gt), w'))"

definition GreaterOrEqual :: "executor \<Rightarrow> holder \<Rightarrow> holder \<Rightarrow> world \<Rightarrow> bool res" where
  "GreaterOrEqual ex lhs rhs w =
     (case Less ex lhs rhs w of
        (Inl e, w') \<Rightarrow> (Inl e, w')
      | (Inr lt, w') \<Rightarrow> (Inr (\<not> lt), w'))"

subsection \<open>Printing\<close>

definition digit_char :: "nat \<Rightarrow> char" where
  "digit_char d = ''0123456789'' ! (d mod 10)"

function decimal :: "nat \<Rightarrow> string" where
  "decimal n = (if n < 10 then [digit_char n] else decimal (n div 10) @ [digit_char (n mod 10)])"
  by pat_completeness auto
termination
  by (relation "measure id") auto

text \<open>Decimal text of a signed number: \<^verbatim>\<open>os << int\<close> and \<^verbatim>\<open>std::to_string(int)\<close>.\<close>

definition to_string :: "32 word \<Rightarrow> string" where
  "to_string v = (if sint v < 0 then CHR ''-'' # decimal (nat (- sint v)) else decimal (nat (sint v)))"

text \<open>
  \<^verbatim>\<open>os << this\<close> writes a pointer in a form the implementation chooses; the model writes
  the address in decimal after \<^verbatim>\<open>0x\<close>.
\<close>

definition pointer_text :: "addr \<Rightarrow> string" where
  "pointer_text a = ''0x'' @ decimal a"

text \<open>
  \<^verbatim>\<open>ClassInstance::Print\<close>. The result is the text sent to \<^verbatim>\<open>os\<close>, which the function writes
  only after every call of \<^verbatim>\<open>__str__\<close> has returned. The first argument bounds the depth
  of the recursion on the instance that \<^verbatim>\<open>__str__\<close> returns.
\<close>

fun ClassInstance_Print :: "nat \<Rightarrow> executor \<Rightarrow> addr \<Rightarrow> world \<Rightarrow> string res" where
  "ClassInstance_Print 0 ex this w = (Inl OutOfFuel, w)"
| "ClassInstance_Print (Suc k) ex this w =
     (if HasMethod (inst_cls (heap w this)) ''__str__'' 0
      then (case Call ex this ''__str__'' [] w of
              (Inl e, w') \<Rightarrow> (Inl e, w')
            | (Inr obj, w') \<Rightarrow>
                (case TryAs_Number obj of Some v \<Rightarrow> (Inr (to_string v), w')
                 | None \<Rightarrow> (case TryAs_String obj of Some s \<Rightarrow> (Inr s, w')
                 | None \<Rightarrow> (case TryAs_Class obj of Some c \<Rightarrow> (Inr (''Class '' @ cls_name c), w')
                 | None \<Rightarrow> (case TryAs_ClassInstance obj of Some a \<Rightarrow> ClassInstance_Print k ex a w'
                 | None \<Rightarrow> (Inr [], w'))))))
      else (Inr (pointer_text this), w))"

text \<open>
  The virtual \<^verbatim>\<open>Object::Print\<close>. \<^verbatim>\<open>Class::Print\<close>, \<^verbatim>\<open>Bool::Print\<close> and
  \<^verbatim>\<open>ClassInstance::Print\<close> are in \<^verbatim>\<open>runtime.cpp\<close>. Modelled from the spec: the printers of
  \<^verbatim>\<open>Number\<close> and \<^verbatim>\<open>String\<close>, declared in the header \<^verbatim>\<open>runtime.h\<close> ("decimal digits of the
  signed value", "the raw characters").
\<close>

fun Object_Print :: "nat \<Rightarrow> executor \<Rightarrow> object \<Rightarrow> world \<Rightarrow> string res" where
  "Object_Print k ex (Number v) w = (Inr (to_string v), w)"
| "Object_Print k ex (String s) w = (Inr s, w)"
| "Object_Print k ex (Bool b) w = (Inr (if b then ''True'' else ''False''), w)"
| "Object_Print k ex (ClassObject c) w = (Inr (''Class '' @ cls_name c), w)"
| "Object_Print k ex (ClassInstance a) w = ClassInstance_Print k ex a w"

definition put :: "string \<Rightarrow> world \<Rightarrow> world" where
  "put text w = w\<lparr>out := out w @ text\<rparr>"

section \<open>Executing the nodes\<close>

text \<open>
  \<^verbatim>\<open>detail::ThrowClassIntanceCastError\<close> always throws a \<^verbatim>\<open>std::runtime_error\<close>; this is
  its message.
\<close>

definition ThrowClassIntanceCastError :: "holder \<Rightarrow> string \<Rightarrow> signal" where
  \<open>ThrowClassIntanceCastError obj place =
     (if \<not> present obj then RuntimeError (''Trying to '' @ place @ '' in <None> object'')
      else case TryAs_Number obj of
        Some v \<Rightarrow> RuntimeError (''Trying to '' @ place @ '' in <number> object: '' @ to_string v)
      | None \<Rightarrow> (case TryAs_String obj of
        Some s \<Rightarrow> RuntimeError (''Trying to '' @ place @ '' in <string> object: "'' @ s @ ''"'')
      | None \<Rightarrow> (case TryAs_Bool obj of
        Some b \<Rightarrow> RuntimeError (''Trying to '' @ place @ '' in <bool> object'')
      | None \<Rightarrow> (case TryAs_Class obj of
        Some c \<Rightarrow> RuntimeError (''Trying to '' @ place @ '' in <class> object: "'' @ cls_name c @ ''"'')
      | None \<Rightarrow> RuntimeError (''Fail on cast to <runtime::ClassInstance> in '' @ place)))))\<close>

text \<open>
  The loop of \<^verbatim>\<open>VariableValue::Execute\<close> over the inner identifiers of a dotted name: each
  must be a field holding an instance.
\<close>

fun follow_fields :: "string list \<Rightarrow> addr \<Rightarrow> world \<Rightarrow> signal + addr" where
  \<open>follow_fields [] a w = Inr a\<close>
| \<open>follow_fields (i # ids) a w =
     (case inst_fields (heap w a) i of
        None \<Rightarrow> Inl (RuntimeError (''No field with name "'' @ i @ ''"''))
      | Some h \<Rightarrow>
          (case TryAs_ClassInstance h of
             None \<Rightarrow> Inl (RuntimeError (''Failed to cast "'' @ i @ ''" to <ClassInstance>''))
           | Some b \<Rightarrow> follow_fields ids b w))\<close>

definition VariableValue_Execute :: "string list \<Rightarrow> world \<Rightarrow> holder res" where
  \<open>VariableValue_Execute dotted_ids w =
     (case dotted_ids of
        [] \<Rightarrow> (Inl (Undefined ''front() of an empty vector''), w)
      | front # rest \<Rightarrow>
          (case closure w front of
             None \<Rightarrow> (Inl (RuntimeError (''No field with name "'' @ front @ ''"'')), w)
           | Some h \<Rightarrow>
               if rest = [] then (Inr h, w)
               else
                 (case TryAs_ClassInstance h of
                    None \<Rightarrow>
                      (Inl (RuntimeError (''Failed to cast "'' @ front @ ''" to <ClassInstance>'')), w)
                  | Some a \<Rightarrow>
                      (case follow_fields (butlast rest) a w of
                         Inl e \<Rightarrow> (Inl e, w)
                       | Inr b \<Rightarrow>
                           (case inst_fields (heap w b) (last rest) of
                              None \<Rightarrow>
                                (Inl (RuntimeError (''No field with name "'' @ last rest @ ''"'')), w)
                            | Some v \<Rightarrow> (Inr v, w))))))\<close>

text \<open>Evaluating actual arguments left to right (\<^verbatim>\<open>MethodCall\<close>, \<^verbatim>\<open>NewInstance\<close>).\<close>

fun eval_args :: "executor \<Rightarrow> stmt list \<Rightarrow> world \<Rightarrow> holder list res" where
  "eval_args ex [] w = (Inr [], w)"
| "eval_args ex (arg # args) w =
     (case ex arg w of
        (Inl e, w1) \<Rightarrow> (Inl e, w1)
      | (Inr v, w1) \<Rightarrow>
          (case eval_args ex args w1 of
             (Inl e, w2) \<Rightarrow> (Inl e, w2)
           | (Inr vs, w2) \<Rightarrow> (Inr (v # vs), w2)))"

text \<open>The loop of \<^verbatim>\<open>Print::Execute\<close>.\<close>

fun Print_args :: "nat \<Rightarrow> executor \<Rightarrow> bool \<Rightarrow> stmt list \<Rightarrow> world \<Rightarrow> unit res" where
  "Print_args k ex is_not_first [] w = (Inr (), w)"
| "Print_args k ex is_not_first (arg # args) w =
     (case ex arg (if is_not_first then put '' '' w else w) of
        (Inl e, w1) \<Rightarrow> (Inl e, w1)
      | (Inr obj, w1) \<Rightarrow>
          (case Get obj of
             None \<Rightarrow> Print_args k ex True args (put ''None'' w1)
           | Some ob \<Rightarrow>
               (case Object_Print k ex ob w1 of
                  (Inl e, w2) \<Rightarrow> (Inl e, w2)
                | (Inr text, w2) \<Rightarrow> Print_args k ex True args (put text w2))))"

text \<open>The loop of \<^verbatim>\<open>Compound::Execute\<close>: results are dropped.\<close>

fun exec_all :: "executor \<Rightarrow> stmt list \<Rightarrow> world \<Rightarrow> unit res" where
  "exec_all ex [] w = (Inr (), w)"
| "exec_all ex (arg # args) w =
     (case ex arg w of
        (Inl e, w1) \<Rightarrow> (Inl e, w1)
      | (Inr v, w1) \<Rightarrow> exec_all ex args w1)"

text \<open>Both operands of a binary node, left then right.\<close>

definition eval_both :: "executor \<Rightarrow> stmt \<Rightarrow> stmt \<Rightarrow> world \<Rightarrow> (holder \<times> holder) res" where
  "eval_both ex lhs rhs w =
     (case ex lhs w of
        (Inl e, w1) \<Rightarrow> (Inl e, w1)
      | (Inr lhs_obj, w1) \<Rightarrow>
          (case ex rhs w1 of
             (Inl e, w2) \<Rightarrow> (Inl e, w2)
           | (Inr rhs_obj, w2) \<Rightarrow> (Inr (lhs_obj, rhs_obj), w2)))"

text \<open>
  The comparator of a \<^verbatim>\<open>Comparison\<close> node is one of the six functions of
  \<^verbatim>\<open>runtime.cpp\<close>.
\<close>

fun compare :: "comparator \<Rightarrow> executor \<Rightarrow> holder \<Rightarrow> holder \<Rightarrow> world \<Rightarrow> bool res" where
  "compare CmpEqual = Equal"
| "compare CmpNotEqual = NotEqual"
| "compare CmpLess = Less"
| "compare CmpGreater = Greater"
| "compare CmpLessOrEqual = LessOrEqual"
| "compare CmpGreaterOrEqual = GreaterOrEqual"

definition set_field :: "addr \<Rightarrow> string \<Rightarrow> holder \<Rightarrow> world \<Rightarrow> world" where
  "set_field a f v w =
     w\<lparr>heap := (heap w)(a := (heap w a)\<lparr>inst_fields := (inst_fields (heap w a))(f \<mapsto> v)\<rparr>)\<rparr>"

text \<open>
  \<^verbatim>\<open>Execute\<close> of every node. The first argument is a budget: each nested call of
  \<^verbatim>\<open>Execute\<close> spends one unit, and an execution that needs more than it has ends with
  \<open>OutOfFuel\<close>. Exceptions leave the world as it is when they are thrown.

  Modelled from the spec: the constant nodes \<^verbatim>\<open>NumericConst\<close>, \<^verbatim>\<open>StringConst\<close>,
  \<^verbatim>\<open>BoolConst\<close> and \<^verbatim>\<open>None\<close>, declared in the header \<^verbatim>\<open>statement.h\<close> ("yields an owning
  handle to the literal").

  In \<^verbatim>\<open>a = b\<close> the right operand is evaluated before the left one (C++17), so an
  assignment whose right side throws leaves its target untouched.
\<close>

fun exec :: "nat \<Rightarrow> stmt \<Rightarrow> world \<Rightarrow> holder res" where
  "exec 0 s w = (Inl OutOfFuel, w)"
| "exec (Suc n) (NumericConst v) w = (Inr (Own (Number v)), w)"
| "exec (Suc n) (StringConst s) w = (Inr (Own (String s)), w)"
| "exec (Suc n) (BoolConst b) w = (Inr (Own (Bool b)), w)"
| "exec (Suc n) NoneConst w = (Inr Empty, w)"
| "exec (Suc n) (VariableValue dotted_ids) w = VariableValue_Execute dotted_ids w"
| "exec (Suc n) (Assignment var_name rv) w =
     (case exec n rv w of
        (Inl e, w1) \<Rightarrow> (Inl e, w1)
      | (Inr v, w1) \<Rightarrow> (Inr v, w1\<lparr>closure := (closure w1)(var_name \<mapsto> v)\<rparr>))"
| "exec (Suc n) (FieldAssignment object field_name rv) w =
     (case VariableValue_Execute object w of
        (Inl e, w1) \<Rightarrow> (Inl e, w1)
      | (Inr h, w1) \<Rightarrow>
          (case TryAs_ClassInstance h of
             None \<Rightarrow>
               (case VariableValue_Execute object w1 of
                  (Inl e, w2) \<Rightarrow> (Inl e, w2)
                | (Inr h2, w2) \<Rightarrow> (Inl (ThrowClassIntanceCastError h2 ''FieldAssignment''), w2))
           | Some cls_inst_ptr \<Rightarrow>
               (case exec n rv w1 of
                  (Inl e, w2) \<Rightarrow> (Inl e, w2)
                | (Inr v, w2) \<Rightarrow> (Inr v, set_field cls_inst_ptr field_name v w2))))"
| "exec (Suc n) (Print args) w =
     (case Print_args n (\<lambda>s w. exec n s w) False args w of
        (Inl e, w1) \<Rightarrow> (Inl e, w1)
      | (Inr u, w1) \<Rightarrow> (Inr Empty, put [CHR 0x0A] w1))"
| "exec (Suc n) (MethodCall object method_name args) w =
     (case exec n object w of
        (Inl e, w1) \<Rightarrow> (Inl e, w1)
      | (Inr h, w1) \<Rightarrow>
          (case TryAs_ClassInstance h of
             None \<Rightarrow>
               (case exec n object w1 of
                  (Inl e, w2) \<Rightarrow> (Inl e, w2)
                | (Inr h2, w2) \<Rightarrow> (Inl (ThrowClassIntanceCastError h2 ''MethodCall''), w2))
           | Some cls_inst_ptr \<Rightarrow>
               (case eval_args (\<lambda>s w. exec n s w) args w1 of
                  (Inl e, w2) \<Rightarrow> (Inl e, w2)
                | (Inr actual_args, w2) \<Rightarrow>
                    Call (\<lambda>s w. exec n s w) cls_inst_ptr method_name actual_args w2)))"
| "exec (Suc n) (NewInstance cls_inst args) w =
     (if HasMethod (inst_cls (heap w cls_inst)) ''__init__'' (length args)
      then (case eval_args (\<lambda>s w. exec n s w) args w of
              (Inl e, w1) \<Rightarrow> (Inl e, w1)
            | (Inr actual_args, w1) \<Rightarrow>
                (case Call (\<lambda>s w. exec n s w) cls_inst ''__init__'' actual_args w1 of
                   (Inl e, w2) \<Rightarrow> (Inl e, w2)
                 | (Inr r, w2) \<Rightarrow> (Inr (Share (ClassInstance cls_inst)), w2)))
      else (Inr (Share (ClassInstance cls_inst)), w))"
| "exec (Suc n) (Stringify arg) w =
     (case exec n arg w of
        (Inl e, w1) \<Rightarrow> (Inl e, w1)
      | (Inr obj, w1) \<Rightarrow>
          (case Get obj of
             None \<Rightarrow> (Inr (Own (String ''None'')), w1)
           | Some ob \<Rightarrow>
               (case Object_Print n (\<lambda>s w. exec n s w) ob w1 of
                  (Inl e, w2) \<Rightarrow> (Inl e, w2)
                | (Inr text, w2) \<Rightarrow> (Inr (Own (String text)), w2))))"
| "exec (Suc n) (Add lhs rhs) w =
     (case eval_both (\<lambda>s w. exec n s w) lhs rhs w of
        (Inl e, w1) \<Rightarrow> (Inl e, w1)
      | (Inr (lhs_obj, rhs_obj), w1) \<Rightarrow>
          (case both (TryAs_Number lhs_obj) (TryAs_Number rhs_obj) of
             Some (l, r) \<Rightarrow> (Inr (Own (Number (l + r))), w1)
           | None \<Rightarrow>
          (case both (TryAs_String lhs_obj) (TryAs_String rhs_obj) of
             Some (l, r) \<Rightarrow> (Inr (Own (String (l @ r))), w1)
           | None \<Rightarrow>
          (case TryAs_ClassInstance lhs_obj of
             Some this \<Rightarrow>
               if HasMethod (inst_cls (heap w1 this)) ''__add__'' 1
               then Call (\<lambda>s w. exec n s w) this ''__add__'' [rhs_obj] w1
               else (Inl (RuntimeError ''Failed on Add operation''), w1)
           | None \<Rightarrow> (Inl (RuntimeError ''Failed on Add operation''), w1)))))"
| "exec (Suc n) (Sub lhs rhs) w =
     (case eval_both (\<lambda>s w. exec n s w) lhs rhs w of
        (Inl e, w1) \<Rightarrow> (Inl e, w1)
      | (Inr (lhs_obj, rhs_obj), w1) \<Rightarrow>
          (case both (TryAs_Number lhs_obj) (TryAs_Number rhs_obj) of
             Some (l, r) \<Rightarrow> (Inr (Own (Number (l - r))), w1)
           | None \<Rightarrow> (Inl (RuntimeError ''Failed on Sub operation''), w1)))"
| "exec (Suc n) (Mult lhs rhs) w =
     (case eval_both (\<lambda>s w. exec n s w) lhs rhs w of
        (Inl e, w1) \<Rightarrow> (Inl e, w1)
      | (Inr (lhs_obj, rhs_obj), w1) \<Rightarrow>
          (case both (TryAs_Number lhs_obj) (TryAs_Number rhs_obj) of
             Some (l, r) \<Rightarrow> (Inr (Own (Number (l * r))), w1)
           | None \<Rightarrow> (Inl (RuntimeError ''Failed on Mult operation''), w1)))"
| "exec (Suc n) (Div lhs rhs) w =
     (case eval_both (\<lambda>s w. exec n s w) lhs rhs w of
        (Inl e, w1) \<Rightarrow> (Inl e, w1)
      | (Inr (lhs_obj, rhs_obj), w1) \<Rightarrow>
          (case both (TryAs_Number lhs_obj) (TryAs_Number rhs_obj) of
             Some (l, r) \<Rightarrow>
               if r \<noteq> 0 then (Inr (Own (Number (word_of_int (sint l sdiv sint r)))), w1)
               else (Inl (RuntimeError ''Failed on Div operation''), w1)
           | None \<Rightarrow> (Inl (RuntimeError ''Failed on Div operation''), w1)))"
| "exec (Suc n) (Or lhs rhs) w =
     (case eval_both (\<lambda>s w. exec n s w) lhs rhs w of
        (Inl e, w1) \<Rightarrow> (Inl e, w1)
      | (Inr (lhs_obj, rhs_obj), w1) \<Rightarrow>
          if IsTrue lhs_obj \<or> IsTrue rhs_obj then (Inr (Own (Bool True)), w1)
          else (Inr (Own (Bool False)), w1))"
| "exec (Suc n) (And lhs rhs) w =
     (case eval_both (\<lambda>s w. exec n s w) lhs rhs w of
        (Inl e, w1) \<Rightarrow> (Inl e, w1)
      | (Inr (lhs_obj, rhs_obj), w1) \<Rightarrow>
          if IsTrue lhs_obj \<and> IsTrue rhs_obj then (Inr (Own (Bool True)), w1)
          else (Inr (Own (Bool False)), w1))"
| "exec (Suc n) (Not arg) w =
     (case exec n arg w of
        (Inl e, w1) \<Rightarrow> (Inl e, w1)
      | (Inr obj, w1) \<Rightarrow>
          if \<not> IsTrue obj then (Inr (Own (Bool True)), w1)
          else (Inr (Own (Bool False)), w1))"
| "exec (Suc n) (Compound args) w =
     (case exec_all (\<lambda>s w. exec n s w) args w of
        (Inl e, w1) \<Rightarrow> (Inl e, w1)
      | (Inr u, w1) \<Rightarrow> (Inr Empty, w1))"
| "exec (Suc n) (MethodBody body_stmt) w =
     (case exec n body_stmt w of
        (Inl (ReturnObj obj), w1) \<Rightarrow> (Inr obj, w1)
      | (Inl e, w1) \<Rightarrow> (Inl e, w1)
      | (Inr obj, w1) \<Rightarrow> (Inr Empty, w1))"
| "exec (Suc n) (Return statement) w =
     (case exec n statement w of
        (Inl e, w1) \<Rightarrow> (Inl e, w1)
      | (Inr obj, w1) \<Rightarrow>
          if present obj then (Inl (ReturnObj obj), w1)
          else (Inr obj, w1))"
| "exec (Suc n) (ClassDefinition cls_holder) w =
     (case TryAs_Class cls_holder of
        None \<Rightarrow> (Inl null_dereference, w)
      | Some c \<Rightarrow> (Inr cls_holder, w\<lparr>closure := (closure w)(cls_name c \<mapsto> cls_holder)\<rparr>))"
| "exec (Suc n) (IfElse condition if_body else_body) w =
     (case exec n condition w of
        (Inl e, w1) \<Rightarrow> (Inl e, w1)
      | (Inr c, w1) \<Rightarrow>
          if IsTrue c then exec n if_body w1
          else (case else_body of
                  Some eb \<Rightarrow> exec n eb w1
                | None \<Rightarrow> (Inr Empty, w1)))"
| "exec (Suc n) (Comparison cmp lhs rhs) w =
     (case eval_both (\<lambda>s w. exec n s w) lhs rhs w of
        (Inl e, w1) \<Rightarrow> (Inl e, w1)
      | (Inr (lhs_obj, rhs_obj), w1) \<Rightarrow>
          (case compare cmp (\<lambda>s w. exec n s w) lhs_obj rhs_obj w1 of
             (Inl e, w2) \<Rightarrow> (Inl e, w2)
           | (Inr b, w2) \<Rightarrow> (Inr (Own (Bool b)), w2)))"

section \<open>The lexer\<close>

datatype token =
    Number_tok int
  | Id_tok string
  | Char_tok char
  | String_tok string
  | Class_tok | Return_tok | If_tok | Else_tok | Def_tok
  | Newline_tok | Print_tok | Indent_tok | Dedent_tok
  | And_tok | Or_tok | Not_tok
  | Eq_tok | NotEq_tok | LessOrEq_tok | GreaterOrEq_tok
  | None_tok | True_tok | False_tok
  | Eof_tok

datatype lexer_error = LexerError string

subsection \<open>The input stream\<close>

text \<open>
  A \<^verbatim>\<open>std::istream\<close>: the characters not read yet and the two state flags the lexer can
  meet (\<^verbatim>\<open>badbit\<close> is never set: every \<^verbatim>\<open>putback\<close> of the lexer returns the character
  that was read last).
\<close>

record istream =
  buf :: "char list"
  eofbit :: bool
  failbit :: bool

definition good :: "istream \<Rightarrow> bool" where
  "good s = (\<not> eofbit s \<and> \<not> failbit s)"

text \<open>\<^verbatim>\<open>Traits::eof()\<close> stored in a \<^verbatim>\<open>char\<close>.\<close>

definition eof_char :: char where
  "eof_char = CHR 0xFF"

definition get :: "istream \<Rightarrow> char \<times> istream" where
  "get s =
     (if \<not> good s then (eof_char, s\<lparr>failbit := True\<rparr>)
      else case buf s of
        [] \<Rightarrow> (eof_char, s\<lparr>eofbit := True, failbit := True\<rparr>)
      | c # cs \<Rightarrow> (c, s\<lparr>buf := cs\<rparr>))"

definition peek :: "istream \<Rightarrow> char option \<times> istream" where
  "peek s =
     (if \<not> good s then (None, s\<lparr>failbit := True\<rparr>)
      else case buf s of
        [] \<Rightarrow> (None, s\<lparr>eofbit := True\<rparr>)
      | c # cs \<Rightarrow> (Some c, s))"

definition putback :: "char \<Rightarrow> istream \<Rightarrow> istream" where
  "putback c s =
     (if failbit s then s\<lparr>eofbit := False\<rparr>
      else s\<lparr>eofbit := False, buf := c # buf s\<rparr>)"

definition isdigit :: "char \<Rightarrow> bool" where
  "isdigit c = (48 \<le> (of_char c :: nat) \<and> (of_char c :: nat) \<le> 57)"

definition isalpha :: "char \<Rightarrow> bool" where
  "isalpha c = ((65 \<le> (of_char c :: nat) \<and> (of_char c :: nat) \<le> 90)
              \<or> (97 \<le> (of_char c :: nat) \<and> (of_char c :: nat) \<le> 122))"

definition isspace :: "char \<Rightarrow> bool" where
  "isspace c = ((of_char c :: nat) = 32 \<or> (9 \<le> (of_char c :: nat) \<and> (of_char c :: nat) \<le> 13))"

definition newline :: char where
  "newline = CHR 0x0A"

text \<open>The measure of the loops that read: a failed stream reads nothing more.\<close>

definition unread :: "istream \<Rightarrow> nat" where
  "unread s = (if failbit s then 0 else Suc (length (buf s)))"

lemma get_unread: "\<not> failbit s \<Longrightarrow> get s = (c, s1) \<Longrightarrow> unread s1 < unread s"
  by (auto simp: get_def unread_def good_def split: if_splits list.splits)

lemma get_unread': "\<not> failbit s \<Longrightarrow> (c, s1) = get s \<Longrightarrow> unread s1 < unread s"
  using get_unread [of s c s1] by simp

lemma get_buf: "get s = (c, s1) \<Longrightarrow> length (buf s1) \<le> length (buf s)"
  by (auto simp: get_def split: if_splits list.splits)

lemma get_good: "get s = (c, s1) \<Longrightarrow> good s1 \<Longrightarrow> good s \<and> buf s = c # buf s1"
  by (auto simp: get_def good_def split: if_splits list.splits)

subsection \<open>The helpers of \<^verbatim>\<open>ReadInput\<close>\<close>

function SkipComment :: "istream \<Rightarrow> istream" where
  "SkipComment s =
     (if failbit s then s
      else case get s of (c, s1) \<Rightarrow> if c = newline then s1 else SkipComment s1)"
  by pat_completeness auto
termination
  by (relation "measure unread") (auto simp: get_unread')

declare SkipComment.simps [simp del]

text \<open>
  The counting loop of \<^verbatim>\<open>IsNonemptyLine\<close>; \<open>c\<close> is the variable of that name, which the
  loop assigns before anything reads it.
\<close>

function space_loop :: "char \<Rightarrow> int \<Rightarrow> istream \<Rightarrow> char \<times> int \<times> istream" where
  "space_loop c space_count s =
     (if failbit s then (c, space_count, s)
      else case get s of (c', s1) \<Rightarrow>
        if c' \<noteq> CHR '' '' then (c', space_count, s1)
        else space_loop c' (space_count + 1) s1)"
  by pat_completeness auto
termination
  by (relation "measure (\<lambda>(c, n, s). unread s)") (auto simp: get_unread')

declare space_loop.simps [simp del]

definition IsNonemptyLine :: "istream \<Rightarrow> int \<times> istream" where
  "IsNonemptyLine s =
     (case space_loop eof_char 0 s of (c, space_count, s1) \<Rightarrow>
        if failbit s1 then (0, s1)
        else if c = newline then (0, s1)
        else if c = CHR ''#'' then (0, SkipComment s1)
        else (space_count, putback c s1))"

function dedent_loop :: "int \<Rightarrow> int \<Rightarrow> token list \<Rightarrow> int \<times> token list" where
  "dedent_loop diff indent_count toks =
     (if diff < 0 then dedent_loop (diff + 1) (indent_count - 1) (toks @ [Dedent_tok])
      else (indent_count, toks))"
  by pat_completeness auto
termination
  by (relation "measure (\<lambda>(d, i, t). nat (- d))") auto

declare dedent_loop.simps [simp del]

text \<open>
  \<^verbatim>\<open>AdjustIndentCount\<close>. Its dedent loop \<^verbatim>\<open>while (diff)\<close> is entered with \<open>diff < 0\<close>
  only and counts up to zero.
\<close>

definition AdjustIndentCount :: "token list \<Rightarrow> int \<Rightarrow> int \<Rightarrow> lexer_error + token list \<times> int" where
  "AdjustIndentCount toks indent_count space_count =
     (if space_count mod 2 \<noteq> 0 then Inl (LexerError ''Odd space count in indent'')
      else
        (let diff = space_count div 2 - indent_count in
         if diff > 1 then Inl (LexerError ''Trying to make more indent than needs'')
         else if diff = 1 then Inr (toks @ [Indent_tok], indent_count + 1)
         else if diff < 0 then
           (case dedent_loop diff indent_count toks of (indent_count', toks') \<Rightarrow>
              if indent_count' < 0 then Inl (LexerError ''indent_count < 0'')
              else Inr (toks', indent_count'))
         else Inr (toks, indent_count)))"

text \<open>The loop \<^verbatim>\<open>while (std::isdigit(input.peek())) read_char();\<close> of \<^verbatim>\<open>LoadNumber\<close>.\<close>

function read_digits_loop :: "string \<Rightarrow> istream \<Rightarrow> lexer_error + string \<times> istream" where
  "read_digits_loop parsed_num s =
     (case peek s of
        (None, s1) \<Rightarrow> Inr (parsed_num, s1)
      | (Some d, s1) \<Rightarrow>
          if \<not> isdigit d then Inr (parsed_num, s1)
          else (case get s1 of (c, s2) \<Rightarrow>
                  if failbit s2 then Inl (LexerError ''Failed to read number from stream'')
                  else read_digits_loop (parsed_num @ [c]) s2))"
  by pat_completeness auto
termination
  by (relation "measure (\<lambda>(p, s). unread s)")
     (auto simp: peek_def get_def unread_def good_def split: if_splits list.splits)

declare read_digits_loop.simps [simp del]

text \<open>Value of a string of decimal digits, as \<^verbatim>\<open>std::stoi\<close> reads it.\<close>

definition digits_value :: "string \<Rightarrow> int" where
  "digits_value ds = foldl (\<lambda>acc d. 10 * acc + (of_char d - 48)) 0 ds"

definition LoadNumber :: "token list \<Rightarrow> istream \<Rightarrow> lexer_error + token list \<times> istream" where
  "LoadNumber toks s =
     (case
        (case peek s of
           (Some d, s1) \<Rightarrow>
             if d = CHR ''0'' then
               (case get s1 of (c, s2) \<Rightarrow>
                  if failbit s2 then Inl (LexerError ''Failed to read number from stream'')
                  else Inr ([c], s2))
             else if \<not> isdigit d then Inl (LexerError ''A digit is expected'')
             else read_digits_loop [] s1
         | (None, s1) \<Rightarrow> Inl (LexerError ''A digit is expected''))
      of
        Inl e \<Rightarrow> Inl e
      | Inr (parsed_num, s') \<Rightarrow>
          if digits_value parsed_num > 2147483647
          then Inl (LexerError ''Unknown error while stoi(parsed_num)'')
          else Inr (toks @ [Number_tok (digits_value parsed_num)], s'))"

text \<open>
  The loop of \<^verbatim>\<open>LoadString\<close>, which reads the stream buffer through
  \<^verbatim>\<open>std::istreambuf_iterator\<close> and so leaves the state flags alone.
\<close>

fun scan_string :: "char \<Rightarrow> string \<Rightarrow> char list \<Rightarrow> lexer_error + string \<times> char list" where
  "scan_string quote s [] = Inl (LexerError ''Eof after opened double quote'')"
| "scan_string quote s (ch # it) =
     (if ch = quote then Inr (s, it)
      else if ch = CHR 0x5C then
        (case it of
           [] \<Rightarrow> Inl (LexerError ''Eof after opened double quote'')
         | escaped_char # it' \<Rightarrow>
             if escaped_char = CHR ''n'' then scan_string quote (s @ [CHR 0x0A]) it'
             else if escaped_char = CHR ''t'' then scan_string quote (s @ [CHR 0x09]) it'
             else if escaped_char = CHR ''r'' then scan_string quote (s @ [CHR 0x0D]) it'
             else if escaped_char = CHR 0x22 then scan_string quote (s @ [CHR 0x22]) it'
             else if escaped_char = CHR 0x27 then scan_string quote (s @ [CHR 0x27]) it'
             else if escaped_char = CHR 0x5C then scan_string quote (s @ [CHR 0x5C]) it'
             else Inl (LexerError (''Unrecognized escape sequence '' @ [CHR 0x5C, escaped_char])))
      else scan_string quote (s @ [ch]) it)"

text \<open>\<^verbatim>\<open>input >> quote\<close>: skips white space, then reads one character.\<close>

definition extract_char :: "istream \<Rightarrow> char option \<times> istream" where
  "extract_char s =
     (if \<not> good s then (None, s\<lparr>failbit := True\<rparr>)
      else case dropWhile isspace (buf s) of
        [] \<Rightarrow> (None, s\<lparr>buf := [], eofbit := True, failbit := True\<rparr>)
      | c # cs \<Rightarrow> (Some c, s\<lparr>buf := cs\<rparr>))"

text \<open>
  \<^verbatim>\<open>LoadString\<close> is called with its opening quote as the next character, so the extraction
  of \<^verbatim>\<open>quote\<close> succeeds; where it failed the variable would be read unset, and the model
  reports the string as unterminated.
\<close>

definition LoadString :: "token list \<Rightarrow> istream \<Rightarrow> lexer_error + token list \<times> istream" where
  "LoadString toks s =
     (case extract_char s of
        (None, s1) \<Rightarrow> Inl (LexerError ''Eof after opened double quote'')
      | (Some quote, s1) \<Rightarrow>
          (case scan_string quote [] (buf s1) of
             Inl e \<Rightarrow> Inl e
           | Inr (str, rest) \<Rightarrow> Inr (toks @ [String_tok str], s1\<lparr>buf := rest\<rparr>)))"

function read_word :: "string \<Rightarrow> istream \<Rightarrow> string \<times> istream" where
  "read_word s inp =
     (if failbit inp then (s, inp)
      else case get inp of (c, inp1) \<Rightarrow>
        if \<not> good inp1 then (s, inp1)
        else if c = CHR '' '' \<or> c = newline \<or> c = CHR ''#'' then (s, putback c inp1)
        else if \<not> isalpha c \<and> \<not> isdigit c \<and> c \<noteq> CHR ''_'' then (s, putback c inp1)
        else read_word (s @ [c]) inp1)"
  by pat_completeness auto
termination
  by (relation "measure (\<lambda>(w, s). unread s)") (auto simp: get_unread')

declare read_word.simps [simp del]

text \<open>
  Modelled from the spec: the table \<^verbatim>\<open>key_words_\<close> and the enumeration \<^verbatim>\<open>KeyWords\<close> of the
  header \<^verbatim>\<open>lexer.h\<close> ("the twelve reserved keywords").
\<close>

definition key_words :: "(string \<times> token) list" where
  "key_words =
     [(''class'', Class_tok), (''return'', Return_tok), (''if'', If_tok), (''else'', Else_tok),
      (''def'', Def_tok), (''print'', Print_tok), (''and'', And_tok), (''or'', Or_tok),
      (''not'', Not_tok), (''None'', None_tok), (''True'', True_tok), (''False'', False_tok)]"

definition LoadKeyWordOrId :: "token list \<Rightarrow> istream \<Rightarrow> token list \<times> istream" where
  "LoadKeyWordOrId toks inp =
     (case read_word [] inp of (s, inp1) \<Rightarrow>
        (case map_of key_words s of
           Some kw \<Rightarrow> (toks @ [kw], inp1)
         | None \<Rightarrow> (toks @ [Id_tok s], inp1)))"

text \<open>
  Modelled from the spec: the string \<^verbatim>\<open>operations_\<close> of the header \<^verbatim>\<open>lexer.h\<close> ("the set
  \<^verbatim>\<open>+-*/()[]:,.\<close> is emitted as \<^verbatim>\<open>Char(c)\<close>").
\<close>

definition operations :: string where
  "operations = ''+-*/()[]:,.''"

subsection \<open>\<^verbatim>\<open>ReadInput\<close>\<close>

record lexer_state =
  input :: istream
  tokens :: "token list"
  is_stream_begin :: bool
  is_line_begin :: bool
  indent_count :: int

datatype 'a iteration = Continue 'a | Break 'a | Throw lexer_error

definition emplace_back :: "token \<Rightarrow> lexer_state \<Rightarrow> lexer_state" where
  "emplace_back t st = st\<lparr>tokens := tokens st @ [t]\<rparr>"

text \<open>
  An operator that may be followed by \<^verbatim>\<open>=\<close>: \<open>two\<close> is the token of the pair and \<open>one\<close>
  what the character alone gives (nothing for \<^verbatim>\<open>!\<close>).
\<close>

definition digraph :: "token \<Rightarrow> token list \<Rightarrow> lexer_state \<Rightarrow> lexer_state" where
  "digraph two one st =
     (case peek (input st) of (p, inp1) \<Rightarrow>
        if p = Some (CHR ''='')
        then (case get inp1 of (c, inp2) \<Rightarrow> emplace_back two (st\<lparr>input := inp2\<rparr>))
        else st\<lparr>input := inp1, tokens := tokens st @ one\<rparr>)"

text \<open>
  One turn of the \<^verbatim>\<open>while (input)\<close> loop of \<^verbatim>\<open>ReadInput\<close>, in three parts: what is done
  with a character \<open>c\<close> read at the beginning of a line, what is done with one read inside
  a line (both end in \<^verbatim>\<open>continue\<close> or throw), and the head of the loop that reads \<open>c\<close>. In
  the first two the state already has the stream as it is after reading \<open>c\<close>.
\<close>

definition line_begin_turn :: "char \<Rightarrow> lexer_state \<Rightarrow> lexer_error + lexer_state" where
  "line_begin_turn c st =
     (if c = newline then Inr st
      else if c = CHR ''#'' then Inr (st\<lparr>input := SkipComment (input st)\<rparr>)
      else if c = CHR '' '' then
        (case IsNonemptyLine (putback c (input st)) of (space_count, inp1) \<Rightarrow>
           if space_count = 0 then Inr (st\<lparr>input := inp1\<rparr>)
           else if tokens st = []
           then Inl (LexerError ''Trying to indent before any token appears'')
           else
             (case AdjustIndentCount (tokens st) (indent_count st) space_count of
                Inl e \<Rightarrow> Inl e
              | Inr (toks, ic) \<Rightarrow>
                  Inr (st\<lparr>input := inp1, tokens := toks,
                              is_line_begin := False, indent_count := ic\<rparr>)))
      else
        (case AdjustIndentCount (tokens st) (indent_count st) 0 of
           Inl e \<Rightarrow> Inl e
         | Inr (toks, ic) \<Rightarrow>
             Inr (st\<lparr>input := putback c (input st), tokens := toks,
                         is_line_begin := False, indent_count := ic\<rparr>)))"

definition in_line_turn :: "char \<Rightarrow> lexer_state \<Rightarrow> lexer_error + lexer_state" where
  "in_line_turn c st =
     (if isdigit c then
        (case LoadNumber (tokens st) (putback c (input st)) of
           Inl e \<Rightarrow> Inl e
         | Inr (toks, inp1) \<Rightarrow> Inr (st\<lparr>input := inp1, tokens := toks\<rparr>))
      else if c = CHR 0x27 \<or> c = CHR 0x22 then
        (case LoadString (tokens st) (putback c (input st)) of
           Inl e \<Rightarrow> Inl e
         | Inr (toks, inp1) \<Rightarrow> Inr (st\<lparr>input := inp1, tokens := toks\<rparr>))
      else if c = CHR ''_'' \<or> isalpha c then
        (case LoadKeyWordOrId (tokens st) (putback c (input st)) of (toks, inp1) \<Rightarrow>
           Inr (st\<lparr>input := inp1, tokens := toks\<rparr>))
      else if c \<in> set operations then Inr (emplace_back (Char_tok c) st)
      else if c = CHR ''='' then Inr (digraph Eq_tok [Char_tok c] st)
      else if c = CHR ''!'' then Inr (digraph NotEq_tok [] st)
      else if c = CHR ''<'' then Inr (digraph LessOrEq_tok [Char_tok c] st)
      else if c = CHR ''>'' then Inr (digraph GreaterOrEq_tok [Char_tok c] st)
      else if c = CHR ''#'' then
        (let inp1 = SkipComment (input st) in
         Inr (st\<lparr>input := (if good inp1 then putback newline inp1 else inp1)\<rparr>))
      else if c = newline then Inr ((emplace_back Newline_tok st)\<lparr>is_line_begin := True\<rparr>)
      else if c = CHR '' '' then Inr st
      else Inr (emplace_back (Char_tok c) st))"

definition loop_body :: "lexer_state \<Rightarrow> lexer_state iteration" where
  "loop_body st =
     (if failbit (input st) then Break st
      else case get (input st) of (c, inp) \<Rightarrow>
        if \<not> good inp then Break (st\<lparr>input := inp\<rparr>)
        else if is_stream_begin st \<and> c = CHR '' ''
        then Throw (LexerError ''Space in the begining of istream'')
        else
          (case (if is_line_begin st
                 then line_begin_turn c (st\<lparr>input := inp, is_stream_begin := False\<rparr>)
                 else in_line_turn c (st\<lparr>input := inp, is_stream_begin := False\<rparr>)) of
             Inl e \<Rightarrow> Throw e
           | Inr st' \<Rightarrow> Continue st'))"

text \<open>What the helpers leave unread, needed for the termination of the main loop.\<close>

lemma putback_buf: "\<not> failbit s \<Longrightarrow> buf (putback c s) = c # buf s"
  by (simp add: putback_def)

lemma putback_buf_le: "length (buf (putback c s)) \<le> Suc (length (buf s))"
  by (simp add: putback_def)

lemma get_buf_less:
  "get s = (c, s1) \<Longrightarrow> \<not> failbit s1 \<Longrightarrow> length (buf s1) < length (buf s)"
  by (auto simp: get_def split: if_splits list.splits)

lemma get_eof_char: "get s = (c, s1) \<Longrightarrow> failbit s1 \<Longrightarrow> \<not> failbit s \<Longrightarrow> c = eof_char"
  by (auto simp: get_def split: if_splits list.splits)

lemma SkipComment_buf: "length (buf (SkipComment s)) \<le> length (buf s)"
proof (induction s rule: SkipComment.induct)
  case (1 s)
  show ?case
  proof (cases "failbit s")
    case True
    then show ?thesis by (simp add: SkipComment.simps [of s])
  next
    case False
    obtain c s1 where g: "get s = (c, s1)" by (cases "get s")
    have le: "length (buf s1) \<le> length (buf s)" using g by (rule get_buf)
    show ?thesis
    proof (cases "c = newline")
      case True
      with False g le show ?thesis by (simp add: SkipComment.simps [of s])
    next
      case ne: False
      have "length (buf (SkipComment s1)) \<le> length (buf s1)"
        using "1.IH" [OF False g [symmetric] ne] .
      with False g ne le show ?thesis by (simp add: SkipComment.simps [of s])
    qed
  qed
qed

lemma SkipComment_buf_less:
  assumes nf: "\<not> failbit s" and nf': "\<not> failbit (SkipComment s)"
  shows "length (buf (SkipComment s)) < length (buf s)"
proof -
  obtain c s1 where g: "get s = (c, s1)" by (cases "get s")
  have eq: "SkipComment s = (if c = newline then s1 else SkipComment s1)"
    using nf g by (simp add: SkipComment.simps [of s])
  have nf1: "\<not> failbit s1"
  proof
    assume f1: "failbit s1"
    then have "failbit (SkipComment s1)" by (simp add: SkipComment.simps [of s1])
    moreover have "c \<noteq> newline"
      using get_eof_char [OF g f1 nf] by (simp add: eof_char_def newline_def)
    ultimately show False using eq nf' by simp
  qed
  have "length (buf s1) < length (buf s)" using g nf1 by (rule get_buf_less)
  moreover have "length (buf (SkipComment s1)) \<le> length (buf s1)" by (rule SkipComment_buf)
  ultimately show ?thesis using eq by (auto split: if_splits)
qed

lemma space_loop_buf:
  "space_loop c n s = (c', n', s') \<Longrightarrow> length (buf s') \<le> length (buf s) \<and> n \<le> n'"
proof (induction c n s rule: space_loop.induct)
  case (1 c n s)
  show ?case
  proof (cases "failbit s")
    case True
    with "1.prems" show ?thesis by (simp add: space_loop.simps [of c n s])
  next
    case False
    obtain d s1 where g: "get s = (d, s1)" by (cases "get s")
    have le: "length (buf s1) \<le> length (buf s)" using g by (rule get_buf)
    show ?thesis
    proof (cases "d = CHR '' ''")
      case True
      have "space_loop d (n + 1) s1 = (c', n', s')"
        using "1.prems" False g True by (simp add: space_loop.simps [of c n s])
      then have "length (buf s') \<le> length (buf s1) \<and> n + 1 \<le> n'"
        using "1.IH" [OF False g [symmetric]] True by simp
      with le show ?thesis by simp
    next
      case ne: False
      with "1.prems" False g le show ?thesis by (simp add: space_loop.simps [of c n s])
    qed
  qed
qed

lemma IsNonemptyLine_buf:
  assumes "good s" and "buf s = CHR '' '' # rest" and "IsNonemptyLine s = (n, s')"
  shows "(n = 0 \<longrightarrow> length (buf s') \<le> length rest) \<and> length (buf s') \<le> Suc (length rest)"
proof -
  have g: "get s = (CHR '' '', s\<lparr>buf := rest\<rparr>)"
    using assms(1,2) by (simp add: get_def)
  have nf: "\<not> failbit s" using assms(1) by (simp add: good_def)
  obtain c k s1 where sl: "space_loop (CHR '' '') 1 (s\<lparr>buf := rest\<rparr>) = (c, k, s1)"
    by (cases "space_loop (CHR '' '') 1 (s\<lparr>buf := rest\<rparr>)")
  have sl0: "space_loop eof_char 0 s = (c, k, s1)"
    using nf g sl by (simp add: space_loop.simps [of eof_char 0 s])
  have le: "length (buf s1) \<le> length rest" and k: "1 \<le> k"
    using space_loop_buf [OF sl] by simp_all
  have sk: "length (buf (SkipComment s1)) \<le> length rest"
    using SkipComment_buf [of s1] le by simp
  have pb: "length (buf (putback c s1)) \<le> Suc (length rest)"
    using putback_buf_le [of c s1] le by simp
  show ?thesis
    using assms(3) sl0 le k sk pb unfolding IsNonemptyLine_def
    by (auto split: if_splits)
qed

lemma peek_buf: "peek s = (p, s1) \<Longrightarrow> buf s1 = buf s"
  by (auto simp: peek_def split: if_splits list.splits)

lemma read_digits_loop_buf:
  "read_digits_loop p s = Inr (p', s') \<Longrightarrow> length (buf s') \<le> length (buf s)"
proof (induction p s rule: read_digits_loop.induct)
  case (1 p s)
  obtain q s1 where pk: "peek s = (q, s1)" by (cases "peek s")
  have b1: "buf s1 = buf s" using pk by (rule peek_buf)
  show ?case
  proof (cases q)
    case None
    with "1.prems" pk b1 show ?thesis by (simp add: read_digits_loop.simps [of p s])
  next
    case (Some d)
    show ?thesis
    proof (cases "isdigit d")
      case False
      with "1.prems" pk b1 Some show ?thesis by (simp add: read_digits_loop.simps [of p s])
    next
      case True
      obtain c s2 where g: "get s1 = (c, s2)" by (cases "get s1")
      have le: "length (buf s2) \<le> length (buf s1)" using g by (rule get_buf)
      have nf: "\<not> failbit s2"
        using "1.prems" pk Some True g
        by (auto simp: read_digits_loop.simps [of p s] split: if_splits)
      have "read_digits_loop (p @ [c]) s2 = Inr (p', s')"
        using "1.prems" pk Some True g nf by (simp add: read_digits_loop.simps [of p s])
      then have "length (buf s') \<le> length (buf s2)"
        using "1.IH" [OF pk [symmetric] Some _ g [symmetric] nf] True by simp
      with le b1 show ?thesis by simp
    qed
  qed
qed

lemma LoadNumber_buf:
  assumes "good s" and "buf s = c # rest" and "isdigit c"
    and "LoadNumber toks s = Inr (toks', s')"
  shows "length (buf s') \<le> length rest"
proof -
  have pk: "peek s = (Some c, s)" using assms(1,2) by (simp add: peek_def)
  have g: "get s = (c, s\<lparr>buf := rest\<rparr>)" using assms(1,2) by (simp add: get_def)
  have nf: "\<not> failbit (s\<lparr>buf := rest\<rparr>)" using assms(1) by (simp add: good_def)
  show ?thesis
  proof (cases "c = CHR ''0''")
    case True
    with assms(4) pk g nf show ?thesis
      by (auto simp: LoadNumber_def split: if_splits)
  next
    case False
    have rd: "read_digits_loop [] s = read_digits_loop [c] (s\<lparr>buf := rest\<rparr>)"
      using pk g nf assms(3) by (simp add: read_digits_loop.simps [of "[]" s])
    obtain p where "read_digits_loop [c] (s\<lparr>buf := rest\<rparr>) = Inr (p, s')"
      using assms(3,4) pk False rd
      by (auto simp: LoadNumber_def split: if_splits sum.splits)
    from read_digits_loop_buf [OF this] show ?thesis by simp
  qed
qed

lemma scan_string_buf:
  "scan_string q acc b = Inr (str, r) \<Longrightarrow> length r \<le> length b"
  by (induction q acc b rule: scan_string.induct) (auto split: if_splits list.splits)

lemma LoadString_buf:
  assumes "good s" and "buf s = c # rest" and "\<not> isspace c"
    and "LoadString toks s = Inr (toks', s')"
  shows "length (buf s') \<le> length rest"
proof -
  have ex: "extract_char s = (Some c, s\<lparr>buf := rest\<rparr>)"
    using assms(1,2,3) by (simp add: extract_char_def)
  obtain str r where sc: "scan_string c [] rest = Inr (str, r)" and s': "s' = s\<lparr>buf := r\<rparr>"
    using assms(4) ex by (auto simp: LoadString_def split: sum.splits)
  from scan_string_buf [OF sc] s' show ?thesis by simp
qed

lemma read_word_buf:
  "read_word w s = (w', s') \<Longrightarrow> length (buf s') \<le> length (buf s)"
proof (induction w s rule: read_word.induct)
  case (1 w s)
  show ?case
  proof (cases "failbit s")
    case True
    with "1.prems" show ?thesis by (simp add: read_word.simps [of w s])
  next
    case False
    obtain c s1 where g: "get s = (c, s1)" by (cases "get s")
    have le: "length (buf s1) \<le> length (buf s)" using g by (rule get_buf)
    show ?thesis
    proof (cases "good s1")
      case ng: False
      with "1.prems" False g le show ?thesis by (simp add: read_word.simps [of w s])
    next
      case True
      have lt: "length (buf s1) < length (buf s)"
        using g True by (intro get_buf_less) (auto simp: good_def)
      have pb: "length (buf (putback c s1)) \<le> length (buf s)"
        using putback_buf_le [of c s1] lt by simp
      show ?thesis
      proof (cases "c = CHR '' '' \<or> c = newline \<or> c = CHR ''#''
                    \<or> (\<not> isalpha c \<and> \<not> isdigit c \<and> c \<noteq> CHR ''_'')")
        case stop: True
        with "1.prems" False g True pb show ?thesis
          by (auto simp: read_word.simps [of w s] split: if_splits)
      next
        case go: False
        then have "read_word (w @ [c]) s1 = (w', s')"
          using "1.prems" False g True by (auto simp: read_word.simps [of w s] split: if_splits)
        then have "length (buf s') \<le> length (buf s1)"
          using "1.IH" [OF False g [symmetric]] True go by simp
        with le show ?thesis by simp
      qed
    qed
  qed
qed

lemma LoadKeyWordOrId_buf:
  assumes "good s" and "buf s = c # rest" and "c = CHR ''_'' \<or> isalpha c"
    and "LoadKeyWordOrId toks s = (toks', s')"
  shows "length (buf s') \<le> length rest"
proof -
  have g: "get s = (c, s\<lparr>buf := rest\<rparr>)" using assms(1,2) by (simp add: get_def)
  have gd: "good (s\<lparr>buf := rest\<rparr>)" using assms(1) by (simp add: good_def)
  have nf: "\<not> failbit s" using assms(1) by (simp add: good_def)
  have c: "c \<noteq> CHR '' ''" "c \<noteq> newline" "c \<noteq> CHR ''#''"
    using assms(3) by (auto simp: isalpha_def newline_def)
  have rw: "read_word [] s = read_word [c] (s\<lparr>buf := rest\<rparr>)"
    using g gd nf c assms(3) by (auto simp: read_word.simps [of "[]" s])
  obtain w where "read_word [c] (s\<lparr>buf := rest\<rparr>) = (w, s')"
    using assms(4) rw by (auto simp: LoadKeyWordOrId_def split: prod.splits option.splits)
  from read_word_buf [OF this] show ?thesis by simp
qed

lemma digraph_buf: "length (buf (input (digraph two one st))) \<le> length (buf (input st))"
proof -
  obtain p s1 where pk: "peek (input st) = (p, s1)" by (cases "peek (input st)")
  obtain c s2 where g: "get s1 = (c, s2)" by (cases "get s1")
  have "buf s1 = buf (input st)" using pk by (rule peek_buf)
  moreover have "length (buf s2) \<le> length (buf s1)" using g by (rule get_buf)
  ultimately show ?thesis using pk g by (simp add: digraph_def emplace_back_def)
qed

definition progress :: "lexer_state \<Rightarrow> nat" where
  "progress st = 2 * length (buf (input st)) + (if is_line_begin st then 1 else 0)"

lemma line_begin_turn_progress:
  assumes "line_begin_turn c st = Inr st'" and gd: "good (input st)"
  shows "progress st' < 2 * length (buf (input st)) + 3"
proof -
  have nf: "\<not> failbit (input st)" using gd by (simp add: good_def)
  have pb: "buf (putback c (input st)) = c # buf (input st)" using nf by (rule putback_buf)
  have gpb: "good (putback c (input st))" using gd by (simp add: putback_def good_def)
  have sk: "length (buf (SkipComment (input st))) \<le> length (buf (input st))"
    by (rule SkipComment_buf)
  consider (nl) "c = newline" | (hash) "c \<noteq> newline" "c = CHR ''#''"
    | (sp) "c \<noteq> newline" "c \<noteq> CHR ''#''" "c = CHR '' ''"
    | (other) "c \<noteq> newline" "c \<noteq> CHR ''#''" "c \<noteq> CHR '' ''"
    by blast
  then show ?thesis
  proof cases
    case nl
    with assms(1) show ?thesis by (auto simp: line_begin_turn_def progress_def)
  next
    case hash
    with assms(1) sk show ?thesis by (auto simp: line_begin_turn_def progress_def)
  next
    case sp
    obtain n inp1 where ne: "IsNonemptyLine (putback c (input st)) = (n, inp1)"
      by (cases "IsNonemptyLine (putback c (input st))")
    have pb': "buf (putback c (input st)) = CHR '' '' # buf (input st)" using pb sp by simp
    have bound: "(n = 0 \<longrightarrow> length (buf inp1) \<le> length (buf (input st)))
                 \<and> length (buf inp1) \<le> Suc (length (buf (input st)))"
      using IsNonemptyLine_buf [OF gpb pb' ne] .
    show ?thesis
    proof (cases "n = 0")
      case True
      with assms(1) sp ne bound show ?thesis
        by (auto simp: line_begin_turn_def progress_def)
    next
      case False
      then obtain toks ic where
        "st' = st\<lparr>input := inp1, tokens := toks, is_line_begin := False, indent_count := ic\<rparr>"
        using assms(1) sp ne
        by (auto simp: line_begin_turn_def split: if_splits sum.splits)
      with bound show ?thesis by (simp add: progress_def)
    qed
  next
    case other
    then obtain toks ic where
      "st' = st\<lparr>input := putback c (input st), tokens := toks,
                 is_line_begin := False, indent_count := ic\<rparr>"
      using assms(1) by (auto simp: line_begin_turn_def split: sum.splits)
    with pb show ?thesis by (simp add: progress_def)
  qed
qed

lemma in_line_turn_progress:
  assumes "in_line_turn c st = Inr st'" and gd: "good (input st)"
  shows "progress st' < 2 * length (buf (input st)) + 2"
proof -
  have nf: "\<not> failbit (input st)" using gd by (simp add: good_def)
  have pb: "buf (putback c (input st)) = c # buf (input st)" using nf by (rule putback_buf)
  have gpb: "good (putback c (input st))" using gd by (simp add: putback_def good_def)
  have il: "is_line_begin (digraph two one x) = is_line_begin x" for two one x
    by (simp add: digraph_def emplace_back_def split: prod.splits)
  have dg: "progress (digraph two one st) \<le> progress st" for two one
    using digraph_buf [of two one st] by (simp add: progress_def il)
  show ?thesis
  proof (cases "isdigit c")
    case True
    then obtain toks inp1 where l: "LoadNumber (tokens st) (putback c (input st)) = Inr (toks, inp1)"
      and st': "st' = st\<lparr>input := inp1, tokens := toks\<rparr>"
      using assms(1) by (auto simp: in_line_turn_def split: sum.splits)
    from LoadNumber_buf [OF gpb pb True l] st' show ?thesis by (simp add: progress_def)
  next
    case nd: False
    show ?thesis
    proof (cases "c = CHR 0x27 \<or> c = CHR 0x22")
      case True
      then obtain toks inp1 where l: "LoadString (tokens st) (putback c (input st)) = Inr (toks, inp1)"
        and st': "st' = st\<lparr>input := inp1, tokens := toks\<rparr>"
        using assms(1) nd by (auto simp: in_line_turn_def split: sum.splits)
      have "\<not> isspace c" using True by (auto simp: isspace_def)
      from LoadString_buf [OF gpb pb this l] st' show ?thesis by (simp add: progress_def)
    next
      case nq: False
      show ?thesis
      proof (cases "c = CHR ''_'' \<or> isalpha c")
        case True
        then obtain toks inp1 where l: "LoadKeyWordOrId (tokens st) (putback c (input st)) = (toks, inp1)"
          and st': "st' = st\<lparr>input := inp1, tokens := toks\<rparr>"
          using assms(1) nd nq by (auto simp: in_line_turn_def split: prod.splits)
        from LoadKeyWordOrId_buf [OF gpb pb True l] st' show ?thesis by (simp add: progress_def)
      next
        case na: False
        have eq: "in_line_turn c st =
          (if c \<in> set operations then Inr (emplace_back (Char_tok c) st)
           else if c = CHR ''='' then Inr (digraph Eq_tok [Char_tok c] st)
           else if c = CHR ''!'' then Inr (digraph NotEq_tok [] st)
           else if c = CHR ''<'' then Inr (digraph LessOrEq_tok [Char_tok c] st)
           else if c = CHR ''>'' then Inr (digraph GreaterOrEq_tok [Char_tok c] st)
           else if c = CHR ''#'' then
             (let inp1 = SkipComment (input st) in
              Inr (st\<lparr>input := (if good inp1 then putback newline inp1 else inp1)\<rparr>))
           else if c = newline then Inr ((emplace_back Newline_tok st)\<lparr>is_line_begin := True\<rparr>)
           else if c = CHR '' '' then Inr st
           else Inr (emplace_back (Char_tok c) st))"
          using nd nq na unfolding in_line_turn_def by simp
        have sk: "length (buf (SkipComment (input st))) \<le> length (buf (input st))"
          by (rule SkipComment_buf)
        have skp: "length (buf (putback newline (SkipComment (input st)))) \<le> length (buf (input st))"
          if "good (SkipComment (input st))"
        proof -
          from that have "\<not> failbit (SkipComment (input st))" by (simp add: good_def)
          from SkipComment_buf_less [OF nf this] putback_buf_le [of newline "SkipComment (input st)"]
          show ?thesis by simp
        qed
        have dgb: "length (buf (input (digraph two one st))) \<le> length (buf (input st))" for two one
          by (rule digraph_buf)
        have "length (buf (input st')) \<le> length (buf (input st))"
          using assms(1) dgb sk skp unfolding eq
          by (auto simp: emplace_back_def Let_def split: if_splits)
        then show ?thesis by (simp add: progress_def)
      qed
    qed
  qed
qed

lemma loop_body_progress:
  assumes "loop_body st = Continue st'"
  shows "progress st' < progress st"
proof -
  obtain c inp where g: "get (input st) = (c, inp)" by (cases "get (input st)")
  have gd: "good inp"
    using assms g by (auto simp: loop_body_def split: if_splits)
  have b: "buf (input st) = c # buf inp"
    using get_good [OF g gd] by simp
  let ?st = "st\<lparr>input := inp, is_stream_begin := False\<rparr>"
  have gd': "good (input ?st)" using gd by simp
  show ?thesis
  proof (cases "is_line_begin st")
    case True
    then have "line_begin_turn c ?st = Inr st'"
      using assms g gd by (auto simp: loop_body_def split: if_splits sum.splits)
    from line_begin_turn_progress [OF this gd'] True b show ?thesis
      by (simp add: progress_def)
  next
    case False
    then have "in_line_turn c ?st = Inr st'"
      using assms g gd by (auto simp: loop_body_def split: if_splits sum.splits)
    from in_line_turn_progress [OF this gd'] False b show ?thesis
      by (simp add: progress_def)
  qed
qed

function ReadInput_loop :: "lexer_state \<Rightarrow> lexer_error + lexer_state" where
  "ReadInput_loop st =
     (case loop_body st of
        Continue st' \<Rightarrow> ReadInput_loop st'
      | Break st' \<Rightarrow> Inr st'
      | Throw e \<Rightarrow> Inl e)"
  by pat_completeness auto
termination
  by (relation "measure progress") (auto simp: loop_body_progress)

declare ReadInput_loop.simps [simp del]

text \<open>What \<^verbatim>\<open>ReadInput\<close> appends after the loop.\<close>

definition finish :: "lexer_state \<Rightarrow> token list" where
  "finish st =
     (let toks1 = (if tokens st \<noteq> [] \<and> last (tokens st) \<noteq> Newline_tok
                   then tokens st @ [Newline_tok] else tokens st);
          toks2 = (if indent_count st > 0
                   then snd (dedent_loop (- indent_count st) (indent_count st) toks1)
                   else toks1)
      in toks2 @ [Eof_tok])"

definition istream_of :: "string \<Rightarrow> istream" where
  "istream_of text = \<lparr>buf = text, eofbit = False, failbit = False\<rparr>"

definition ReadInput :: "istream \<Rightarrow> lexer_error + token list" where
  "ReadInput inp =
     (case ReadInput_loop \<lparr>input = inp, tokens = [], is_stream_begin = True,
                           is_line_begin = True, indent_count = 0\<rparr> of
        Inl e \<Rightarrow> Inl e
      | Inr st \<Rightarrow> Inr (finish st))"

section \<open>Properties of the lexer\<close>

definition balance :: "token list \<Rightarrow> int" where
  "balance ts = int (count_list ts Indent_tok) - int (count_list ts Dedent_tok)"

lemma balance_append: "balance (xs @ ys) = balance xs + balance ys"
  by (simp add: balance_def)

lemma balance_Nil: "balance [] = 0"
  by (simp add: balance_def)

lemma balance_single: "balance [t] = (if t = Indent_tok then 1 else if t = Dedent_tok then - 1 else 0)"
  by (simp add: balance_def)

lemma balance_replicate_Dedent: "balance (replicate k Dedent_tok) = - int k"
  by (induction k) (simp_all add: balance_def)

lemma dedent_loop_eq:
  "d \<le> 0 \<Longrightarrow> dedent_loop d ic toks = (ic + d, toks @ replicate (nat (- d)) Dedent_tok)"
proof (induction d ic toks rule: dedent_loop.induct)
  case (1 diff indent_count toks)
  show ?case
  proof (cases "diff < 0")
    case True
    then have le: "diff + 1 \<le> 0" by simp
    have n: "nat (- diff) = Suc (nat (- (diff + 1)))" using True by simp
    have "dedent_loop diff indent_count toks
            = dedent_loop (diff + 1) (indent_count - 1) (toks @ [Dedent_tok])"
      using True by (simp add: dedent_loop.simps [of diff indent_count toks])
    also have "\<dots> = (indent_count - 1 + (diff + 1),
                     (toks @ [Dedent_tok]) @ replicate (nat (- (diff + 1))) Dedent_tok)"
      using "1.IH" [OF True le] .
    finally show ?thesis by (simp add: n)
  next
    case False
    with "1.prems" have "diff = 0" by simp
    then show ?thesis by (simp add: dedent_loop.simps [of 0])
  qed
qed

definition balanced :: "lexer_state \<Rightarrow> bool" where
  "balanced st = (balance (tokens st) = indent_count st \<and> 0 \<le> indent_count st)"

lemma AdjustIndentCount_balance:
  assumes "AdjustIndentCount toks ic sc = Inr (toks', ic')"
    and "balance toks = ic" and "0 \<le> ic"
  shows "balance toks' = ic' \<and> 0 \<le> ic'"
proof -
  let ?diff = "sc div 2 - ic"
  consider (up) "?diff = 1" | (down) "?diff < 0" | (same) "?diff = 0"
    using assms(1) by (auto simp: AdjustIndentCount_def Let_def split: if_splits)
  then show ?thesis
  proof cases
    case up
    with assms show ?thesis
      by (auto simp: AdjustIndentCount_def Let_def balance_append balance_single split: if_splits)
  next
    case down
    then have dl: "dedent_loop ?diff ic toks = (ic + ?diff, toks @ replicate (nat (- ?diff)) Dedent_tok)"
      by (intro dedent_loop_eq) simp
    from assms(1) down dl have "toks' = toks @ replicate (nat (- ?diff)) Dedent_tok"
      and "ic' = ic + ?diff" and "0 \<le> ic'"
      by (auto simp: AdjustIndentCount_def Let_def split: if_splits)
    with assms(2) down show ?thesis
      by (simp add: balance_append balance_replicate_Dedent)
  next
    case same
    with assms show ?thesis
      by (auto simp: AdjustIndentCount_def Let_def split: if_splits)
  qed
qed

lemma line_begin_turn_balanced:
  assumes "line_begin_turn c st = Inr st'" and "balanced st"
  shows "balanced st'"
proof -
  have adj: "balanced (st\<lparr>input := i, tokens := toks, is_line_begin := False, indent_count := ic\<rparr>)"
    if "AdjustIndentCount (tokens st) (indent_count st) sc = Inr (toks, ic)" for sc toks ic i
    using AdjustIndentCount_balance [OF that] assms(2) by (simp add: balanced_def)
  obtain n inp1 where ne: "IsNonemptyLine (putback c (input st)) = (n, inp1)"
    by (cases "IsNonemptyLine (putback c (input st))")
  show ?thesis
    using assms ne adj
    by (auto simp: line_begin_turn_def balanced_def split: if_splits sum.splits)
qed

lemma LoadNumber_tokens:
  "LoadNumber toks s = Inr (toks', s') \<Longrightarrow> \<exists>v. toks' = toks @ [Number_tok v]"
  by (auto simp: LoadNumber_def split: sum.splits prod.splits if_splits)

lemma LoadString_tokens:
  "LoadString toks s = Inr (toks', s') \<Longrightarrow> \<exists>v. toks' = toks @ [String_tok v]"
  by (auto simp: LoadString_def split: sum.splits prod.splits option.splits)

lemma key_words_plain:
  "map_of key_words w = Some kw \<Longrightarrow> kw \<noteq> Indent_tok \<and> kw \<noteq> Dedent_tok"
  by (auto simp: key_words_def split: if_splits)

lemma LoadKeyWordOrId_tokens:
  "LoadKeyWordOrId toks s = (toks', s') \<Longrightarrow>
     \<exists>t. toks' = toks @ [t] \<and> t \<noteq> Indent_tok \<and> t \<noteq> Dedent_tok"
  by (auto simp: LoadKeyWordOrId_def split: prod.splits option.splits dest: key_words_plain)

lemma digraph_tokens:
  "tokens (digraph two one st) = tokens st @ [two] \<or> tokens (digraph two one st) = tokens st @ one"
  by (auto simp: digraph_def emplace_back_def split: prod.splits)

lemma digraph_indent_count: "indent_count (digraph two one st) = indent_count st"
  by (auto simp: digraph_def emplace_back_def split: prod.splits)

lemma in_line_turn_tokens:
  assumes "in_line_turn c st = Inr st'"
  shows "indent_count st' = indent_count st \<and>
         (\<exists>ext. tokens st' = tokens st @ ext \<and> Indent_tok \<notin> set ext \<and> Dedent_tok \<notin> set ext)"
proof (cases "isdigit c")
  case True
  then obtain toks inp1 where l: "LoadNumber (tokens st) (putback c (input st)) = Inr (toks, inp1)"
    and st': "st' = st\<lparr>input := inp1, tokens := toks\<rparr>"
    using assms(1) by (auto simp: in_line_turn_def split: sum.splits)
  from LoadNumber_tokens [OF l] st' show ?thesis by auto
next
  case nd: False
  show ?thesis
  proof (cases "c = CHR 0x27 \<or> c = CHR 0x22")
    case True
    then obtain toks inp1 where l: "LoadString (tokens st) (putback c (input st)) = Inr (toks, inp1)"
      and st': "st' = st\<lparr>input := inp1, tokens := toks\<rparr>"
      using assms(1) nd by (auto simp: in_line_turn_def split: sum.splits)
    from LoadString_tokens [OF l] st' show ?thesis by auto
  next
    case nq: False
    show ?thesis
    proof (cases "c = CHR ''_'' \<or> isalpha c")
      case True
      then obtain toks inp1 where l: "LoadKeyWordOrId (tokens st) (putback c (input st)) = (toks, inp1)"
        and st': "st' = st\<lparr>input := inp1, tokens := toks\<rparr>"
        using assms(1) nd nq by (auto simp: in_line_turn_def split: prod.splits)
      from LoadKeyWordOrId_tokens [OF l] st' show ?thesis by auto
    next
      case na: False
      have eq: "in_line_turn c st =
        (if c \<in> set operations then Inr (emplace_back (Char_tok c) st)
         else if c = CHR ''='' then Inr (digraph Eq_tok [Char_tok c] st)
         else if c = CHR ''!'' then Inr (digraph NotEq_tok [] st)
         else if c = CHR ''<'' then Inr (digraph LessOrEq_tok [Char_tok c] st)
         else if c = CHR ''>'' then Inr (digraph GreaterOrEq_tok [Char_tok c] st)
         else if c = CHR ''#'' then
           (let inp1 = SkipComment (input st) in
            Inr (st\<lparr>input := (if good inp1 then putback newline inp1 else inp1)\<rparr>))
         else if c = newline then Inr ((emplace_back Newline_tok st)\<lparr>is_line_begin := True\<rparr>)
         else if c = CHR '' '' then Inr st
         else Inr (emplace_back (Char_tok c) st))"
        using nd nq na unfolding in_line_turn_def by simp
      have dg: "\<exists>ext. tokens (digraph two one st) = tokens st @ ext
                  \<and> Indent_tok \<notin> set ext \<and> Dedent_tok \<notin> set ext"
        if "two \<noteq> Indent_tok" "two \<noteq> Dedent_tok" "Indent_tok \<notin> set one" "Dedent_tok \<notin> set one"
        for two one
        using digraph_tokens [of two one st] that by auto
      show ?thesis
        using assms(1) dg [of Eq_tok "[Char_tok c]"] dg [of NotEq_tok "[]"]
          dg [of LessOrEq_tok "[Char_tok c]"] dg [of GreaterOrEq_tok "[Char_tok c]"]
        unfolding eq
        by (auto simp: emplace_back_def Let_def digraph_indent_count split: if_splits)
    qed
  qed
qed

lemma balance_plain: "Indent_tok \<notin> set ext \<Longrightarrow> Dedent_tok \<notin> set ext \<Longrightarrow> balance ext = 0"
  by (induction ext) (auto simp: balance_def)

lemma in_line_turn_balanced:
  assumes "in_line_turn c st = Inr st'" and "balanced st"
  shows "balanced st'"
  using in_line_turn_tokens [OF assms(1)] assms(2)
  by (auto simp: balanced_def balance_append balance_plain)

lemma loop_body_balanced:
  assumes "loop_body st = Continue st' \<or> loop_body st = Break st'" and "balanced st"
  shows "balanced st'"
proof -
  obtain c inp where g: "get (input st) = (c, inp)" by (cases "get (input st)")
  let ?st = "st\<lparr>input := inp, is_stream_begin := False\<rparr>"
  have b: "balanced ?st" using assms(2) by (simp add: balanced_def)
  have b': "balanced (st\<lparr>input := inp\<rparr>)" using assms(2) by (simp add: balanced_def)
  from assms(1) g consider "st' = st" | "st' = st\<lparr>input := inp\<rparr>"
    | "line_begin_turn c ?st = Inr st'" | "in_line_turn c ?st = Inr st'"
    by (auto simp: loop_body_def split: if_splits sum.splits)
  then show ?thesis
  proof cases
    case 1
    with assms(2) show ?thesis by simp
  next
    case 2
    with b' show ?thesis by simp
  next
    case 3
    from line_begin_turn_balanced [OF this b] show ?thesis .
  next
    case 4
    from in_line_turn_balanced [OF this b] show ?thesis .
  qed
qed

lemma ReadInput_loop_balanced:
  "ReadInput_loop st = Inr st' \<Longrightarrow> balanced st \<Longrightarrow> balanced st'"
proof (induction st rule: ReadInput_loop.induct)
  case (1 st)
  show ?case
  proof (cases "loop_body st")
    case (Continue st1)
    have "ReadInput_loop st1 = Inr st'"
      using "1.prems"(1) Continue by (simp add: ReadInput_loop.simps [of st])
    moreover have "balanced st1"
      using loop_body_balanced [of st st1] Continue "1.prems"(2) by simp
    ultimately show ?thesis using "1.IH" [OF Continue] by simp
  next
    case (Break st1)
    then have "st' = st1"
      using "1.prems"(1) by (simp add: ReadInput_loop.simps [of st])
    with loop_body_balanced [of st st1] Break "1.prems"(2) show ?thesis by simp
  next
    case (Throw e)
    with "1.prems"(1) show ?thesis by (simp add: ReadInput_loop.simps [of st])
  qed
qed

definition start :: "istream \<Rightarrow> lexer_state" where
  "start inp = \<lparr>input = inp, tokens = [], is_stream_begin = True,
                 is_line_begin = True, indent_count = 0\<rparr>"

lemma finish_eq:
  assumes "0 \<le> indent_count st"
  shows "finish st = tokens st
           @ (if tokens st \<noteq> [] \<and> last (tokens st) \<noteq> Newline_tok then [Newline_tok] else [])
           @ replicate (nat (indent_count st)) Dedent_tok @ [Eof_tok]"
proof (cases "indent_count st > 0")
  case True
  have "dedent_loop (- indent_count st) (indent_count st) ts
          = (0, ts @ replicate (nat (indent_count st)) Dedent_tok)" for ts
    using dedent_loop_eq [of "- indent_count st" "indent_count st" ts] True by simp
  with True show ?thesis by (simp add: finish_def Let_def)
next
  case False
  with assms have "indent_count st = 0" by simp
  then show ?thesis by (simp add: finish_def Let_def)
qed

lemma start_balanced: "balanced (start inp)"
  by (simp add: balanced_def start_def balance_def)

lemma ReadInput_start:
  "ReadInput inp = (case ReadInput_loop (start inp) of Inl e \<Rightarrow> Inl e | Inr st \<Rightarrow> Inr (finish st))"
  by (simp add: ReadInput_def start_def)

text \<open>
  The spec's terminator property, as a test on a token sequence: the last token is
  \<^verbatim>\<open>Eof\<close>, and before it, after any number of \<^verbatim>\<open>Dedent\<close>s, there is a \<^verbatim>\<open>Newline\<close>.
\<close>

definition terminated :: "token list \<Rightarrow> bool" where
  "terminated toks =
     (case rev toks of
        [] \<Rightarrow> False
      | t # before \<Rightarrow>
          t = Eof_tok \<and>
          (case dropWhile (\<lambda>d. d = Dedent_tok) before of
             [] \<Rightarrow> False
           | n # rest \<Rightarrow> n = Newline_tok))"

lemma terminated_shape:
  "terminated (pre @ [Newline_tok] @ replicate k Dedent_tok @ [Eof_tok])"
proof -
  have "dropWhile (\<lambda>d. d = Dedent_tok) (replicate k Dedent_tok @ Newline_tok # rev pre)
          = Newline_tok # rev pre"
    by (induction k) simp_all
  then show ?thesis by (simp add: terminated_def)
qed

text \<open>
  Claim C7. Whenever \<^verbatim>\<open>ReadInput\<close> succeeds, the token sequence has as many \<^verbatim>\<open>Indent\<close>
  tokens as \<^verbatim>\<open>Dedent\<close> tokens.
\<close>

theorem ReadInput_indent_dedent_balance:
  assumes "ReadInput inp = Inr toks"
  shows "count_list toks Indent_tok = count_list toks Dedent_tok"
proof -
  obtain st where loop: "ReadInput_loop (start inp) = Inr st" and toks: "toks = finish st"
    using assms by (auto simp: ReadInput_start split: sum.splits)
  have b: "balanced st"
    using ReadInput_loop_balanced [OF loop start_balanced] .
  then have nn: "0 \<le> indent_count st" and bal: "balance (tokens st) = indent_count st"
    by (simp_all add: balanced_def)
  have "balance toks = 0"
    unfolding toks finish_eq [OF nn]
    using bal nn by (simp add: balance_append balance_single balance_replicate_Dedent balance_Nil)
  then show ?thesis by (simp add: balance_def)
qed

theorem ReadInput_indent_dedent_balance_witness:
  "ReadInput (istream_of (''if x:'' @ [newline] @ ''  y''))
     = Inr [If_tok, Id_tok ''x'', Char_tok CHR '':'', Newline_tok, Indent_tok, Id_tok ''y'',
            Newline_tok, Dedent_tok, Eof_tok]
   \<and> count_list [If_tok, Id_tok ''x'', Char_tok CHR '':'', Newline_tok, Indent_tok, Id_tok ''y'',
            Newline_tok, Dedent_tok, Eof_tok] Indent_tok
     = count_list [If_tok, Id_tok ''x'', Char_tok CHR '':'', Newline_tok, Indent_tok, Id_tok ''y'',
            Newline_tok, Dedent_tok, Eof_tok] Dedent_tok"
proof -
  have h: "ReadInput (istream_of (''if x:'' @ [newline] @ ''  y''))
     = Inr [If_tok, Id_tok ''x'', Char_tok CHR '':'', Newline_tok, Indent_tok, Id_tok ''y'',
            Newline_tok, Dedent_tok, Eof_tok]"
    by code_simp
  show ?thesis using h ReadInput_indent_dedent_balance [OF h] by simp
qed

text \<open>
  Claim C6 as stated fails on the empty stream: nothing was emitted, the guard
  \<^verbatim>\<open>!tokens_.empty()\<close> skips the \<^verbatim>\<open>Newline\<close>, and the result is \<^verbatim>\<open>Eof\<close> alone.
\<close>

theorem ReadInput_terminator_counterexample:
  "ReadInput (istream_of []) = Inr [Eof_tok] \<and> \<not> terminated [Eof_tok]"
proof -
  have "ReadInput (istream_of []) = Inr [Eof_tok]" by code_simp
  moreover have "\<not> terminated [Eof_tok]" by (simp add: terminated_def)
  ultimately show ?thesis by simp
qed

text \<open>
  Claim C6, amended. Whenever \<^verbatim>\<open>ReadInput\<close> succeeds, the result is what the loop emitted,
  then a \<^verbatim>\<open>Newline\<close> if the loop emitted something and its last token is not a
  \<^verbatim>\<open>Newline\<close>, then one \<^verbatim>\<open>Dedent\<close> per open indentation level, then \<^verbatim>\<open>Eof\<close>. If the loop
  emitted a token, the sequence ends with \<^verbatim>\<open>Newline\<close>, \<^verbatim>\<open>Dedent\<close>s, \<^verbatim>\<open>Eof\<close>; if it emitted
  none, the sequence is \<^verbatim>\<open>Eof\<close> alone.
\<close>

theorem ReadInput_terminator:
  assumes "ReadInput inp = Inr toks"
  shows "\<exists>st. ReadInput_loop (start inp) = Inr st \<and>
           toks = tokens st
             @ (if tokens st \<noteq> [] \<and> last (tokens st) \<noteq> Newline_tok then [Newline_tok] else [])
             @ replicate (nat (indent_count st)) Dedent_tok @ [Eof_tok] \<and>
           (if tokens st = [] then toks = [Eof_tok] else terminated toks)"
proof -
  obtain st where loop: "ReadInput_loop (start inp) = Inr st" and toks: "toks = finish st"
    using assms by (auto simp: ReadInput_start split: sum.splits)
  have b: "balanced st"
    using ReadInput_loop_balanced [OF loop start_balanced] .
  then have nn: "0 \<le> indent_count st" and bal: "balance (tokens st) = indent_count st"
    by (simp_all add: balanced_def)
  note shape = toks [unfolded finish_eq [OF nn]]
  have "toks = [Eof_tok]" if "tokens st = []"
    using that bal shape by (simp add: balance_def)
  moreover have "terminated toks" if ne: "tokens st \<noteq> []"
  proof (cases "last (tokens st) = Newline_tok")
    case True
    have "tokens st = butlast (tokens st) @ [Newline_tok]"
      using ne True append_butlast_last_id [of "tokens st"] by simp
    then have "toks = butlast (tokens st) @ [Newline_tok]
                 @ replicate (nat (indent_count st)) Dedent_tok @ [Eof_tok]"
      using shape ne True by simp
    then show ?thesis by (simp only: terminated_shape)
  next
    case False
    then have "toks = tokens st @ [Newline_tok]
                 @ replicate (nat (indent_count st)) Dedent_tok @ [Eof_tok]"
      using shape ne by simp
    then show ?thesis by (simp only: terminated_shape)
  qed
  ultimately show ?thesis using loop shape by auto
qed

theorem ReadInput_terminator_witness:
  "ReadInput (istream_of (''x'' @ [newline] @ ''  y''))
     = Inr [Id_tok ''x'', Newline_tok, Indent_tok, Id_tok ''y'', Newline_tok, Dedent_tok, Eof_tok]
   \<and> terminated [Id_tok ''x'', Newline_tok, Indent_tok, Id_tok ''y'', Newline_tok, Dedent_tok, Eof_tok]"
proof -
  have h: "ReadInput (istream_of (''x'' @ [newline] @ ''  y''))
     = Inr [Id_tok ''x'', Newline_tok, Indent_tok, Id_tok ''y'', Newline_tok, Dedent_tok, Eof_tok]"
    by code_simp
  have "terminated [Id_tok ''x'', Newline_tok, Indent_tok, Id_tok ''y'', Newline_tok,
        Dedent_tok, Eof_tok]"
    using ReadInput_terminator [OF h] by (auto split: if_splits)
  with h show ?thesis by simp
qed

end
